theory Spec2Isabelle
  imports Main "HOL-Library.Char_ord" "HOL-Library.List_Lexorder"
begin

section \<open>Strings, whitespace and the Python string primitives\<close>

text \<open>
  The script \<^verbatim>\<open>tally_extractor.py\<close> works on Python \<^verbatim>\<open>str\<close> values. They are
  modelled as \<^typ>\<open>string\<close>, so a character is a code point below 256. On that range
  \<^verbatim>\<open>str.isspace\<close>, which is what \<^verbatim>\<open>str.strip()\<close>, \<^verbatim>\<open>str.split()\<close> and the
  regular expression class \<^verbatim>\<open>\s\<close> use for \<^verbatim>\<open>str\<close> patterns, holds of the code points
  9 to 13, 28 to 32, 133 and 160, and \<^verbatim>\<open>\d\<close> holds of the ASCII digits only.
\<close>

definition is_space :: "char \<Rightarrow> bool" where
  "is_space c =
     (let n = (of_char c :: nat)
      in (9 \<le> n \<and> n \<le> 13) \<or> (28 \<le> n \<and> n \<le> 32) \<or> n = 133 \<or> n = 160)"

definition is_digit :: "char \<Rightarrow> bool" where
  "is_digit c = (let n = (of_char c :: nat) in 48 \<le> n \<and> n \<le> 57)"

text \<open>\<^verbatim>\<open>line.strip()\<close>: drop the leading and the trailing whitespace.\<close>

definition strip :: "string \<Rightarrow> string" where
  "strip s = rev (dropWhile is_space (rev (dropWhile is_space s)))"

text \<open>
  \<^verbatim>\<open>value.split()\<close> with no separator: the maximal runs of non-whitespace characters,
  in order; never an empty token.
\<close>

fun split_acc :: "string \<Rightarrow> string \<Rightarrow> string list" where
  "split_acc cur [] = (if cur = [] then [] else [rev cur])"
| "split_acc cur (c # cs) =
     (if is_space c then (if cur = [] then split_acc [] cs else rev cur # split_acc [] cs)
      else split_acc (c # cur) cs)"

definition split :: "string \<Rightarrow> string list" where
  "split s = split_acc [] s"

text \<open>\<^verbatim>\<open>'tally' in line\<close>: the substring test.\<close>

fun contains :: "string \<Rightarrow> string \<Rightarrow> bool" where
  "contains sub [] = (sub = [])"
| "contains sub (c # cs) = (sub = take (length sub) (c # cs) \<or> contains sub cs)"

section \<open>Errors\<close>

text \<open>
  Every exception the script can raise is a value: \<^verbatim>\<open>IndexError\<close> of a list index
  out of range, \<^verbatim>\<open>ValueError\<close> of \<^verbatim>\<open>float\<close> on a token that is no numeric literal and of
  \<^verbatim>\<open>pd.DataFrame\<close> on columns of unequal lengths, \<^verbatim>\<open>OSError\<close> of a file that cannot
  be opened or read.
\<close>

datatype error = IndexError | ValueError_float string | ValueError_lengths | OSError

text \<open>\<^verbatim>\<open>xs[i]\<close> for a non-negative index.\<close>

definition index :: "'a list \<Rightarrow> nat \<Rightarrow> error + 'a" where
  "index xs i = (if i < length xs then Inr (xs ! i) else Inl IndexError)"

text \<open>\<^verbatim>\<open>xs[0]\<close> and \<^verbatim>\<open>xs[-1]\<close>.\<close>

definition first :: "'a list \<Rightarrow> error + 'a" where
  "first xs = (case xs of [] \<Rightarrow> Inl IndexError | x # _ \<Rightarrow> Inr x)"

definition last_item :: "'a list \<Rightarrow> error + 'a" where
  "last_item xs = (if xs = [] then Inl IndexError else Inr (last xs))"

text \<open>
  A list comprehension or \<^verbatim>\<open>map\<close> whose element expression can raise: the elements
  are evaluated left to right and the first exception ends the evaluation.
\<close>

fun collect :: "('e + 'a) list \<Rightarrow> 'e + 'a list" where
  "collect [] = Inr []"
| "collect (r # rs) =
     (case r of
        Inl e \<Rightarrow> Inl e
      | Inr x \<Rightarrow> (case collect rs of Inl e \<Rightarrow> Inl e | Inr xs \<Rightarrow> Inr (x # xs)))"

section \<open>Regular expressions\<close>

text \<open>
  The three patterns of the script, \<^verbatim>\<open>mcnpx\<close>, \<^verbatim>\<open>mcnp\s+6\<close> and \<^verbatim>\<open>\s(\d{8,11})\s\<close>,
  are sequences of character classes, each with a repetition range and possibly inside
  the capturing group. \<^verbatim>\<open>re\<close> matches such a sequence by backtracking: a repetition is
  greedy, it first takes as many characters as it can (at most its upper bound) and gives
  them back one at a time, down to its lower bound, until the rest of the pattern matches.
  \<^verbatim>\<open>re.search\<close> tries the start positions from left to right, the end of the string
  included. A successful match is \<open>Some g\<close>, with \<open>g\<close> the text of group 1 (empty when
  the pattern has no group); no match is \<open>None\<close>.
\<close>

datatype atom = Atom (cls: "char \<Rightarrow> bool") (lo: nat) (hi: "nat option") (cap: bool)

definition counts :: "atom \<Rightarrow> string \<Rightarrow> nat list" where
  "counts a s =
     (let n = length (takeWhile (cls a) s);
          m = (case hi a of None \<Rightarrow> n | Some h \<Rightarrow> min h n)
      in rev [lo a ..< Suc m])"

fun try_each :: "('k \<Rightarrow> 'r option) \<Rightarrow> 'k list \<Rightarrow> 'r option" where
  "try_each f [] = None"
| "try_each f (k # ks) = (case f k of Some r \<Rightarrow> Some r | None \<Rightarrow> try_each f ks)"

primrec match_here :: "atom list \<Rightarrow> string \<Rightarrow> string option" where
  "match_here [] s = Some []"
| "match_here (a # as) s =
     try_each
       (\<lambda>k. map_option (\<lambda>g. if cap a then take k s @ g else g) (match_here as (drop k s)))
       (counts a s)"

fun search :: "atom list \<Rightarrow> string \<Rightarrow> string option" where
  "search p [] = match_here p []"
| "search p (c # cs) =
     (case match_here p (c # cs) of Some g \<Rightarrow> Some g | None \<Rightarrow> search p cs)"

text \<open>
  Under \<^verbatim>\<open>re.IGNORECASE\<close> an ASCII letter of the pattern matches itself in either case
  (among the code points below 256 nothing else folds to an ASCII letter), and a
  character that is no letter matches itself.
\<close>

definition to_lower :: "char \<Rightarrow> char" where
  "to_lower c =
     (let n = (of_char c :: nat) in if 65 \<le> n \<and> n \<le> 90 then char_of (n + 32) else c)"

definition ichar :: "char \<Rightarrow> atom" where
  "ichar c = Atom (\<lambda>x. to_lower x = to_lower c) 1 (Some 1) False"

text \<open>\<^verbatim>\<open>r"mcnpx"\<close> and \<^verbatim>\<open>r"mcnp\s+6"\<close>, both with \<^verbatim>\<open>re.IGNORECASE\<close>.\<close>

definition re_mcnpx :: "atom list" where
  "re_mcnpx = map ichar ''mcnpx''"

definition re_mcnp6 :: "atom list" where
  "re_mcnp6 = map ichar ''mcnp'' @ [Atom is_space 1 None False, ichar CHR ''6'']"

text \<open>\<^verbatim>\<open>r"\s(\d{8,11})\s"\<close>.\<close>

definition re_particles :: "atom list" where
  "re_particles =
     [Atom is_space 1 (Some 1) False, Atom is_digit 8 (Some 11) True,
      Atom is_space 1 (Some 1) False]"

section \<open>The extraction functions\<close>

text \<open>
  \<^verbatim>\<open>
  def remove_blank_lines(file_lines):
      return [line.strip() for line in file_lines if line.strip()]
  \<close>
\<close>

definition remove_blank_lines :: "string list \<Rightarrow> string list" where
  "remove_blank_lines file_lines = map strip (filter (\<lambda>line. strip line \<noteq> []) file_lines)"

text \<open>
  \<^verbatim>\<open>
  def extract_tally_names(file_lines):
      return [file_lines[i + 2] for i, line in enumerate(file_lines) if 'tally' in line]

  def extract_tally_values(file_lines):
      return [file_lines[i + 1] for i, line in enumerate(file_lines) if line == 'vals']
  \<close>
\<close>

definition extract_tally_names :: "string list \<Rightarrow> error + string list" where
  "extract_tally_names file_lines =
     collect (map (\<lambda>(i, line). index file_lines (i + 2))
       (filter (\<lambda>(i, line). contains ''tally'' line) (enumerate 0 file_lines)))"

definition extract_tally_values :: "string list \<Rightarrow> error + string list" where
  "extract_tally_values file_lines =
     collect (map (\<lambda>(i, line). index file_lines (i + 1))
       (filter (\<lambda>(i, line). line = ''vals'') (enumerate 0 file_lines)))"

text \<open>
  \<^verbatim>\<open>
  def extract_energies(tally_values):
      return [value.split()[0] for value in tally_values]

  def extract_errors(tally_values):
      return [value.split()[-1] for value in tally_values]
  \<close>
\<close>

definition extract_energies :: "string list \<Rightarrow> error + string list" where
  "extract_energies tally_values = collect (map (\<lambda>value. first (split value)) tally_values)"

definition extract_errors :: "string list \<Rightarrow> error + string list" where
  "extract_errors tally_values = collect (map (\<lambda>value. last_item (split value)) tally_values)"

text \<open>
  \<^verbatim>\<open>
  def extract_version(file_lines):
      first_line = file_lines[0]
      if re.search(r"mcnpx", first_line, re.IGNORECASE):
          return "MCNPX"
      elif re.search(r"mcnp\s+6", first_line, re.IGNORECASE):
          return "MCNP6"
      else:
          return "Version not found"
  \<close>
\<close>

definition extract_version :: "string list \<Rightarrow> error + string" where
  "extract_version file_lines =
     (case first file_lines of
        Inl e \<Rightarrow> Inl e
      | Inr first_line \<Rightarrow>
          if search re_mcnpx first_line \<noteq> None then Inr ''MCNPX''
          else if search re_mcnp6 first_line \<noteq> None then Inr ''MCNP6''
          else Inr ''Version not found'')"

text \<open>
  \<^verbatim>\<open>
  def extract_particles(file_lines):
      match = re.search(r"\s(\d{8,11})\s", file_lines[0])
      return f'NPS: {match.group(1)}' if match else "Particles not found"
  \<close>
\<close>

definition extract_particles :: "string list \<Rightarrow> error + string" where
  "extract_particles file_lines =
     (case first file_lines of
        Inl e \<Rightarrow> Inl e
      | Inr first_line \<Rightarrow>
          (case search re_particles first_line of
             Some group1 \<Rightarrow> Inr (''NPS: '' @ group1)
           | None \<Rightarrow> Inr ''Particles not found''))"

section \<open>The directory run\<close>

text \<open>
  \<^verbatim>\<open>f.endswith('.mctal')\<close>, and the first component of \<^verbatim>\<open>os.path.splitext(file)\<close>
  (\<^verbatim>\<open>posixpath\<close>): the name up to its last dot, unless that dot is not after the last
  \<^verbatim>\<open>/\<close> or only dots stand between the two. \<open>rfind\<close> is \<^verbatim>\<open>str.rfind\<close> of one
  character: the last position of it, or \<open>-1\<close>.
\<close>

definition endswith :: "string \<Rightarrow> string \<Rightarrow> bool" where
  "endswith s suffix =
     (length suffix \<le> length s \<and> drop (length s - length suffix) s = suffix)"

definition rfind :: "char \<Rightarrow> string \<Rightarrow> int" where
  "rfind c s =
     (if c \<in> set s then int (length s) - 1 - int (length (takeWhile (\<lambda>x. x \<noteq> c) (rev s)))
      else - 1)"

definition splitext_root :: "string \<Rightarrow> string" where
  "splitext_root p =
     (let sepIndex = rfind CHR ''/'' p; dotIndex = rfind CHR ''.'' p
      in if dotIndex > sepIndex \<and>
            list_ex (\<lambda>c. c \<noteq> CHR ''.'') (drop (nat (sepIndex + 1)) (take (nat dotIndex) p))
         then take (nat dotIndex) p else p)"

text \<open>
  A cell of a table is a string or a number. \<^verbatim>\<open>float(token)\<close> is a parameter
  \<open>float_of\<close> of the run: \<open>None\<close> where Python raises \<^verbatim>\<open>ValueError\<close>, the number
  otherwise; \<open>floats\<close> is \<^verbatim>\<open>list(map(float, tokens))\<close>.
\<close>

datatype 'f cell = Text string | Number 'f

definition floats :: "(string \<Rightarrow> 'f option) \<Rightarrow> string list \<Rightarrow> error + 'f list" where
  "floats float_of tokens =
     collect (map (\<lambda>t. case float_of t of None \<Rightarrow> Inl (ValueError_float t) | Some x \<Rightarrow> Inr x)
       tokens)"

text \<open>
  \<^verbatim>\<open>pd.DataFrame({'Names': ..., 'Values': ..., 'Errors': ...})\<close> raises \<^verbatim>\<open>ValueError\<close>
  unless the three columns have the same length.
\<close>

record 'f data_frame =
  Names :: "'f cell list"
  Values :: "'f cell list"
  Errors :: "'f cell list"

definition DataFrame ::
  "'f cell list \<Rightarrow> 'f cell list \<Rightarrow> 'f cell list \<Rightarrow> error + 'f data_frame" where
  "DataFrame names vals errs =
     (if length names = length vals \<and> length vals = length errs
      then Inr \<lparr>Names = names, Values = vals, Errors = errs\<rparr>
      else Inl ValueError_lengths)"

text \<open>
  The body of the loop of \<^verbatim>\<open>process_files\<close> (lines 67 to 85) for one file, given what
  \<^verbatim>\<open>readlines()\<close> returned for it:
  \<^verbatim>\<open>
        file_lines = remove_blank_lines(mctal_file.readlines())
        file_name = os.path.splitext(file)[0]
        mcnp_version = extract_version(file_lines)
        particle_count = extract_particles(file_lines)
        tally_values = extract_tally_values(file_lines)
        tally_names = extract_tally_names(file_lines)
        energies = list(map(float, extract_energies(tally_values)))
        errors = list(map(float, extract_errors(tally_values)))
        tally_names.insert(0, file_name)
        energies.insert(0, mcnp_version)
        errors.insert(0, particle_count)
        data_df = pd.DataFrame({'Names': tally_names, 'Values': energies, 'Errors': errors})
  \<close>
\<close>

definition process_file ::
  "(string \<Rightarrow> 'f option) \<Rightarrow> string \<Rightarrow> string list \<Rightarrow> error + 'f data_frame" where
  "process_file float_of file raw_lines =
     (let file_lines = remove_blank_lines raw_lines;
          file_name = splitext_root file
      in case extract_version file_lines of Inl e \<Rightarrow> Inl e | Inr mcnp_version \<Rightarrow>
         case extract_particles file_lines of Inl e \<Rightarrow> Inl e | Inr particle_count \<Rightarrow>
         case extract_tally_values file_lines of Inl e \<Rightarrow> Inl e | Inr tally_values \<Rightarrow>
         case extract_tally_names file_lines of Inl e \<Rightarrow> Inl e | Inr tally_names \<Rightarrow>
         case extract_energies tally_values of Inl e \<Rightarrow> Inl e | Inr energy_tokens \<Rightarrow>
         case floats float_of energy_tokens of Inl e \<Rightarrow> Inl e | Inr energies \<Rightarrow>
         case extract_errors tally_values of Inl e \<Rightarrow> Inl e | Inr error_tokens \<Rightarrow>
         case floats float_of error_tokens of Inl e \<Rightarrow> Inl e | Inr errors \<Rightarrow>
           DataFrame (Text file_name # map Text tally_names)
                     (Text mcnp_version # map Number energies)
                     (Text particle_count # map Number errors))"

text \<open>
  The loop over the sorted file names. \<open>read file\<close> is what opening and reading the file
  gives: its lines, or \<open>None\<close> when that raises. \<open>results_df\<close> is the aggregate: the
  per-file tables from left to right (\<^verbatim>\<open>pd.concat([results_df, data_df], axis=1)\<close>
  puts the new one to the right).
\<close>

fun process_loop ::
  "(string \<Rightarrow> 'f option) \<Rightarrow> (string \<Rightarrow> string list option) \<Rightarrow> string list \<Rightarrow>
   'f data_frame list \<Rightarrow> error + 'f data_frame list" where
  "process_loop float_of read [] results_df = Inr results_df"
| "process_loop float_of read (file # files) results_df =
     (case read file of
        None \<Rightarrow> Inl OSError
      | Some raw_lines \<Rightarrow>
          (case process_file float_of file raw_lines of
             Inl e \<Rightarrow> Inl e
           | Inr data_df \<Rightarrow> process_loop float_of read files (results_df @ [data_df])))"

text \<open>
  \<^verbatim>\<open>process_files(directory_path)\<close>, for a directory whose listing
  (\<^verbatim>\<open>os.listdir\<close>) is \<open>listing\<close>. \<open>Inr df\<close> is a run that reaches the export
  \<^verbatim>\<open>results_df.to_excel(output_file, index=False)\<close> with the aggregate \<open>df\<close>;
  \<open>Inl e\<close> is a run that the exception \<open>e\<close> ended before the export.
\<close>

definition mctal_files :: "string list \<Rightarrow> string list" where
  "mctal_files listing = sort (filter (\<lambda>f. endswith f ''.mctal'') listing)"

definition process_files ::
  "(string \<Rightarrow> 'f option) \<Rightarrow> string list \<Rightarrow> (string \<Rightarrow> string list option) \<Rightarrow>
   error + 'f data_frame list" where
  "process_files float_of listing read = process_loop float_of read (mctal_files listing) []"

text \<open>
  What the run leaves in \<^verbatim>\<open>tally_extractor.xlsx\<close>: nothing is written unless the
  export is reached.
\<close>

definition output_file ::
  "(string \<Rightarrow> 'f option) \<Rightarrow> string list \<Rightarrow> (string \<Rightarrow> string list option) \<Rightarrow>
   'f data_frame list option" where
  "output_file float_of listing read =
     (case process_files float_of listing read of Inl e \<Rightarrow> None | Inr df \<Rightarrow> Some df)"

section \<open>Collecting results and splitting lines\<close>

lemma collect_map_Inr_id: "collect (map Inr xs) = Inr xs"
  by (induction xs) auto

lemma collect_Inr_D: "collect rs = Inr xs \<Longrightarrow> rs = map Inr xs"
  by (induction rs arbitrary: xs) (auto split: sum.splits)

lemma collect_Inr_iff: "collect rs = Inr xs \<longleftrightarrow> rs = map Inr xs"
  using collect_Inr_D collect_map_Inr_id by blast

lemma collect_Inl_D: "collect rs = Inl e \<Longrightarrow> Inl e \<in> set rs"
  by (induction rs) (auto split: sum.splits)

lemma collect_map_Inr: "collect (map (\<lambda>x. Inr (f x)) xs) = Inr (map f xs)"
  by (induction xs) auto

lemma collect_fails: "Inl e \<in> set rs \<Longrightarrow> \<exists>e'. collect rs = Inl e'"
  by (induction rs) (auto split: sum.splits)

lemma collect_all_index_error:
  "\<forall>r \<in> set rs. r \<noteq> Inl e \<longrightarrow> (\<exists>x. r = Inr x) \<Longrightarrow> Inl e \<in> set rs \<Longrightarrow> collect rs = Inl e"
  by (induction rs) (auto split: sum.splits)

lemma collect_length: "collect rs = Inr xs \<Longrightarrow> length xs = length rs"
  by (auto simp: collect_Inr_iff)

lemma split_acc_Nil_iff:
  "split_acc cur s = [] \<longleftrightarrow> cur = [] \<and> (\<forall>c \<in> set s. is_space c)"
  by (induction s arbitrary: cur) auto

lemma split_Nil_iff: "split s = [] \<longleftrightarrow> (\<forall>c \<in> set s. is_space c)"
  by (simp add: split_def split_acc_Nil_iff)

lemma dropWhile_all_iff: "(\<forall>x \<in> set (dropWhile P s). P x) \<longleftrightarrow> dropWhile P s = []"
proof
  assume a: "\<forall>x \<in> set (dropWhile P s). P x"
  show "dropWhile P s = []"
  proof (rule ccontr)
    assume n: "dropWhile P s \<noteq> []"
    then have "\<not> P (hd (dropWhile P s))" by (rule hd_dropWhile)
    moreover have "hd (dropWhile P s) \<in> set (dropWhile P s)"
      using n by (rule hd_in_set)
    ultimately show False using a by blast
  qed
next
  assume "dropWhile P s = []"
  then show "\<forall>x \<in> set (dropWhile P s). P x" by (simp only: list.set ball_empty)
qed

lemma strip_Nil_iff: "strip s = [] \<longleftrightarrow> (\<forall>c \<in> set s. is_space c)"
proof -
  have "strip s = [] \<longleftrightarrow> dropWhile is_space (rev (dropWhile is_space s)) = []"
    by (simp only: strip_def rev_is_Nil_conv)
  also have "\<dots> \<longleftrightarrow> (\<forall>x \<in> set (dropWhile is_space s). is_space x)"
    by (simp only: dropWhile_eq_Nil_conv set_rev)
  also have "\<dots> \<longleftrightarrow> dropWhile is_space s = []"
    by (rule dropWhile_all_iff)
  also have "\<dots> \<longleftrightarrow> (\<forall>c \<in> set s. is_space c)"
    by (simp only: dropWhile_eq_Nil_conv)
  finally show ?thesis .
qed

lemma hd_split_acc:
  "split_acc cur s \<noteq> [] \<Longrightarrow>
   hd (split_acc cur s) =
     (if cur = [] then takeWhile (\<lambda>c. \<not> is_space c) (dropWhile is_space s)
      else rev cur @ takeWhile (\<lambda>c. \<not> is_space c) s)"
  by (induction s arbitrary: cur) auto

lemma hd_split:
  "split s \<noteq> [] \<Longrightarrow> hd (split s) = takeWhile (\<lambda>c. \<not> is_space c) (dropWhile is_space s)"
  by (simp add: split_def hd_split_acc)

lemma split_acc_space:
  "is_space sp \<Longrightarrow> split_acc cur (s @ sp # r) = split_acc cur s @ split_acc [] r"
  by (induction s arbitrary: cur) auto

lemma split_acc_spaces: "\<forall>c \<in> set ws. is_space c \<Longrightarrow> split_acc [] ws = []"
  by (simp add: split_acc_Nil_iff)

lemma split_acc_token:
  "\<forall>c \<in> set t. \<not> is_space c \<Longrightarrow> \<forall>c \<in> set ws. is_space c \<Longrightarrow> cur @ t \<noteq> [] \<Longrightarrow>
   split_acc cur (t @ ws) = [rev cur @ t]"
proof (induction t arbitrary: cur)
  case Nil
  then show ?case
  proof (induction ws)
    case Nil
    then show ?case by simp
  next
    case (Cons w ws)
    then show ?case by (simp add: split_acc_Nil_iff)
  qed
next
  case (Cons c t)
  then show ?case by simp
qed

lemma last_split:
  assumes "split s \<noteq> []"
  shows "last (split s) = rev (takeWhile (\<lambda>c. \<not> is_space c) (dropWhile is_space (rev s)))"
proof -
  define D where "D = dropWhile is_space (rev s)"
  define ws where "ws = rev (takeWhile is_space (rev s))"
  define t where "t = rev (takeWhile (\<lambda>c. \<not> is_space c) D)"
  define pre where "pre = rev (dropWhile (\<lambda>c. \<not> is_space c) D)"
  have "rev s = takeWhile is_space (rev s) @ D"
    by (simp add: D_def)
  also have "D = rev t @ rev pre"
    by (simp add: t_def pre_def)
  finally have "rev (rev s) = rev (rev ws @ rev t @ rev pre)"
    by (simp add: ws_def)
  then have s: "s = pre @ t @ ws" by simp
  have ws: "\<forall>c \<in> set ws. is_space c"
    by (auto simp: ws_def dest: set_takeWhileD)
  have t: "\<forall>c \<in> set t. \<not> is_space c"
    by (auto simp: t_def dest: set_takeWhileD)
  have "\<exists>c \<in> set s. \<not> is_space c" using assms by (simp add: split_Nil_iff)
  then have "D \<noteq> []" by (auto simp: D_def dropWhile_eq_Nil_conv)
  then have "\<not> is_space (hd D)" unfolding D_def by (rule hd_dropWhile)
  then have tne: "t \<noteq> []" using \<open>D \<noteq> []\<close> by (cases D) (auto simp: t_def)
  have tok: "split_acc [] (t @ ws) = [t]"
    using split_acc_token [OF t ws, of "[]"] tne by simp
  have "last (split s) = t"
  proof (cases "dropWhile (\<lambda>c. \<not> is_space c) D")
    case Nil
    then have "pre = []" by (simp add: pre_def)
    then have "split s = [t]" using s tok by (simp add: split_def)
    then show ?thesis by simp
  next
    case (Cons sp r)
    have "\<not> (\<lambda>c. \<not> is_space c) (hd (dropWhile (\<lambda>c. \<not> is_space c) D))"
      by (rule hd_dropWhile) (simp add: Cons)
    then have sp: "is_space sp" using Cons by simp
    have "pre = rev r @ [sp]" using Cons by (simp add: pre_def)
    then have "split s = split_acc [] (rev r @ sp # (t @ ws))" using s by (simp add: split_def)
    also have "\<dots> = split_acc [] (rev r) @ [t]"
      using split_acc_space [OF sp] tok by simp
    finally show ?thesis by simp
  qed
  then show ?thesis by (simp add: t_def D_def)
qed

section \<open>Line normalisation\<close>

lemma dropWhile_fix: "xs = [] \<or> \<not> P (hd xs) \<Longrightarrow> dropWhile P xs = xs"
  by (cases xs) auto

lemma dropWhile_rev_dropWhile_fix:
  "dropWhile P (rev (dropWhile P (rev (dropWhile P s)))) = rev (dropWhile P (rev (dropWhile P s)))"
proof -
  let ?u = "dropWhile P s"
  let ?t = "dropWhile P (rev ?u)"
  have "rev ?u = takeWhile P (rev ?u) @ ?t" by simp
  then have u: "?u = rev ?t @ rev (takeWhile P (rev ?u))"
    by (metis rev_append rev_rev_ident)
  show ?thesis
  proof (cases "rev ?t = []")
    case True
    then show ?thesis by (metis dropWhile.simps(1))
  next
    case False
    then have "hd (rev ?t) = hd ?u" using u by (metis hd_append2)
    moreover have "?u \<noteq> []" using u False by (metis append_is_Nil_conv)
    then have "\<not> P (hd ?u)" by (rule hd_dropWhile)
    ultimately show ?thesis by (simp add: dropWhile_fix)
  qed
qed

lemma strip_strip: "strip (strip s) = strip s"
  by (simp add: strip_def dropWhile_rev_dropWhile_fix)

text \<open>
  C7. \<^verbatim>\<open>remove_blank_lines\<close> is idempotent: on every list of strings, applying it
  twice gives the same list as applying it once.
\<close>

theorem remove_blank_lines_idempotent:
  "remove_blank_lines (remove_blank_lines file_lines) = remove_blank_lines file_lines"
  by (simp add: remove_blank_lines_def filter_map o_def strip_strip)

section \<open>Energies and errors\<close>

lemma first_split_Inr: "split v \<noteq> [] \<Longrightarrow> first (split v) = Inr (hd (split v))"
  by (cases "split v") (auto simp: first_def)

lemma collect_map_ok:
  "\<forall>x \<in> set xs. f x = Inr (g x) \<Longrightarrow> collect (map f xs) = Inr (map g xs)"
  by (induction xs) auto

lemma collect_map_Inr_D:
  "collect (map f xs) = Inr ys \<Longrightarrow> \<forall>x \<in> set xs. \<exists>y. f x = Inr y"
  by (induction xs arbitrary: ys) (auto split: sum.splits)

lemma first_Inr_D: "first xs = Inr y \<Longrightarrow> xs \<noteq> []"
  by (auto simp: first_def)

lemma last_item_Inr_D: "last_item xs = Inr y \<Longrightarrow> xs \<noteq> []"
  by (auto simp: last_item_def)

lemma extract_energies_Inr_iff:
  "extract_energies tvs = Inr en \<longleftrightarrow>
     (\<forall>v \<in> set tvs. split v \<noteq> []) \<and> en = map (\<lambda>v. hd (split v)) tvs"
proof
  assume a: "extract_energies tvs = Inr en"
  then have "\<forall>v \<in> set tvs. \<exists>y. first (split v) = Inr y"
    unfolding extract_energies_def by (rule collect_map_Inr_D)
  then have ne: "\<forall>v \<in> set tvs. split v \<noteq> []"
    by (blast dest: first_Inr_D)
  then have "\<forall>v \<in> set tvs. first (split v) = Inr (hd (split v))"
    by (simp add: first_split_Inr)
  then have "extract_energies tvs = Inr (map (\<lambda>v. hd (split v)) tvs)"
    unfolding extract_energies_def by (rule collect_map_ok)
  with a ne show "(\<forall>v \<in> set tvs. split v \<noteq> []) \<and> en = map (\<lambda>v. hd (split v)) tvs"
    by simp
next
  assume a: "(\<forall>v \<in> set tvs. split v \<noteq> []) \<and> en = map (\<lambda>v. hd (split v)) tvs"
  then have "\<forall>v \<in> set tvs. first (split v) = Inr (hd (split v))"
    by (simp add: first_split_Inr)
  then have "extract_energies tvs = Inr (map (\<lambda>v. hd (split v)) tvs)"
    unfolding extract_energies_def by (rule collect_map_ok)
  with a show "extract_energies tvs = Inr en" by simp
qed

lemma extract_errors_Inr_iff:
  "extract_errors tvs = Inr er \<longleftrightarrow>
     (\<forall>v \<in> set tvs. split v \<noteq> []) \<and> er = map (\<lambda>v. last (split v)) tvs"
proof
  assume a: "extract_errors tvs = Inr er"
  then have "\<forall>v \<in> set tvs. \<exists>y. last_item (split v) = Inr y"
    unfolding extract_errors_def by (rule collect_map_Inr_D)
  then have ne: "\<forall>v \<in> set tvs. split v \<noteq> []"
    by (blast dest: last_item_Inr_D)
  then have "\<forall>v \<in> set tvs. last_item (split v) = Inr (last (split v))"
    by (simp add: last_item_def)
  then have "extract_errors tvs = Inr (map (\<lambda>v. last (split v)) tvs)"
    unfolding extract_errors_def by (rule collect_map_ok)
  with a ne show "(\<forall>v \<in> set tvs. split v \<noteq> []) \<and> er = map (\<lambda>v. last (split v)) tvs"
    by simp
next
  assume a: "(\<forall>v \<in> set tvs. split v \<noteq> []) \<and> er = map (\<lambda>v. last (split v)) tvs"
  then have "\<forall>v \<in> set tvs. last_item (split v) = Inr (last (split v))"
    by (simp add: last_item_def)
  then have "extract_errors tvs = Inr (map (\<lambda>v. last (split v)) tvs)"
    unfolding extract_errors_def by (rule collect_map_ok)
  with a show "extract_errors tvs = Inr er" by simp
qed

lemma floats_Inr_D:
  "floats float_of toks = Inr xs \<Longrightarrow> map float_of toks = map Some xs"
proof (induction toks arbitrary: xs)
  case Nil
  then show ?case by (auto simp: floats_def)
next
  case (Cons a toks)
  from Cons.prems obtain y ys where
    "float_of a = Some y" "floats float_of toks = Inr ys" "xs = y # ys"
    by (auto simp: floats_def split: sum.splits option.splits)
  then show ?case using Cons.IH by simp
qed

lemma floats_Inl:
  "float_of tok = None \<Longrightarrow> tok \<in> set toks \<Longrightarrow> \<exists>e. floats float_of toks = Inl e"
  by (induction toks) (auto simp: floats_def split: sum.splits option.splits)

text \<open>
  C8. The sequences that \<^verbatim>\<open>extract_energies\<close> and \<^verbatim>\<open>extract_errors\<close> return have
  the length of the list of tally values they are given; and they do return, on every
  list of non-blank lines, which is what the tally values of a file are.
\<close>

theorem extract_energies_errors_length:
  "(extract_energies tally_values = Inr energies \<longrightarrow> length energies = length tally_values) \<and>
   (extract_errors tally_values = Inr errors \<longrightarrow> length errors = length tally_values) \<and>
   ((\<forall>v \<in> set tally_values. strip v \<noteq> []) \<longrightarrow>
      (\<exists>en er. extract_energies tally_values = Inr en \<and> extract_errors tally_values = Inr er \<and>
         length en = length tally_values \<and> length er = length tally_values))"
  by (simp add: extract_energies_Inr_iff extract_errors_Inr_iff strip_Nil_iff split_Nil_iff)

theorem extract_energies_errors_length_witness:
  "strip ''1.0 2.0 0.05'' \<noteq> [] \<and> strip ''3E-2'' \<noteq> [] \<and>
   extract_energies [''1.0 2.0 0.05'', ''3E-2''] = Inr [''1.0'', ''3E-2''] \<and>
   extract_errors [''1.0 2.0 0.05'', ''3E-2''] = Inr [''0.05'', ''3E-2''] \<and>
   length [''1.0'', ''3E-2''] = length [''1.0 2.0 0.05'', ''3E-2'']"
proof -
  have e: "extract_energies [''1.0 2.0 0.05'', ''3E-2''] = Inr [''1.0'', ''3E-2'']"
    by (simp add: extract_energies_def split_def first_def is_space_def)
  have r: "extract_errors [''1.0 2.0 0.05'', ''3E-2''] = Inr [''0.05'', ''3E-2'']"
    by (simp add: extract_errors_def split_def last_item_def is_space_def)
  have h: "strip ''1.0 2.0 0.05'' \<noteq> [] \<and> strip ''3E-2'' \<noteq> []"
    by (simp add: strip_def is_space_def)
  show ?thesis
    using h e r
      extract_energies_errors_length
        [of "[''1.0 2.0 0.05'', ''3E-2'']" "[''1.0'', ''3E-2'']" "[''0.05'', ''3E-2'']"]
    by simp
qed



section \<open>Tally names and values\<close>

lemma enumerate_nth: "enumerate 0 ls = map (\<lambda>i. (i, ls ! i)) [0..<length ls]"
proof -
  have "enumerate 0 (map (\<lambda>i. ls ! i) [0..<length ls]) = map (\<lambda>i. (i, ls ! i)) [0..<length ls]"
    by (rule enumerate_map_upt)
  then show ?thesis by (simp add: map_nth)
qed

lemma comprehension_indices:
  "map (\<lambda>(i, line). index ls (i + k)) (filter (\<lambda>(i, line). P line) (enumerate 0 ls)) =
   map (\<lambda>i. index ls (i + k)) (filter (\<lambda>i. P (ls ! i)) [0..<length ls])"
  by (simp add: enumerate_nth filter_map o_def)

lemma length_filter_indices:
  "length (filter (\<lambda>i. P (ls ! i)) [0..<length ls]) = length (filter P ls)"
proof -
  have "filter P (map (\<lambda>i. ls ! i) [0..<length ls]) =
        map (\<lambda>i. ls ! i) (filter (\<lambda>i. P (ls ! i)) [0..<length ls])"
    by (simp add: filter_map o_def)
  then have "filter P ls = map (\<lambda>i. ls ! i) (filter (\<lambda>i. P (ls ! i)) [0..<length ls])"
    by (simp add: map_nth)
  then show ?thesis by (metis length_map)
qed

lemma collect_index_ok:
  assumes "\<forall>i < length ls. P (ls ! i) \<longrightarrow> i + k < length ls"
  shows "collect (map (\<lambda>i. index ls (i + k)) (filter (\<lambda>i. P (ls ! i)) [0..<length ls])) =
         Inr (map (\<lambda>i. ls ! (i + k)) (filter (\<lambda>i. P (ls ! i)) [0..<length ls]))"
proof (rule collect_map_ok)
  show "\<forall>i \<in> set (filter (\<lambda>i. P (ls ! i)) [0..<length ls]). index ls (i + k) = Inr (ls ! (i + k))"
    using assms by (auto simp: index_def)
qed

lemma collect_index_fails:
  assumes "i < length ls" "P (ls ! i)" "length ls \<le> i + k"
  shows "collect (map (\<lambda>i. index ls (i + k)) (filter (\<lambda>i. P (ls ! i)) [0..<length ls])) =
         Inl IndexError"
proof (rule collect_all_index_error)
  show "\<forall>r \<in> set (map (\<lambda>i. index ls (i + k)) (filter (\<lambda>i. P (ls ! i)) [0..<length ls])).
          r \<noteq> Inl IndexError \<longrightarrow> (\<exists>x. r = Inr x)"
    by (auto simp: index_def)
  have "i \<in> set (filter (\<lambda>i. P (ls ! i)) [0..<length ls])" using assms by simp
  moreover have "index ls (i + k) = Inl IndexError" using assms by (simp add: index_def)
  ultimately show "Inl IndexError \<in> set (map (\<lambda>i. index ls (i + k)) (filter (\<lambda>i. P (ls ! i)) [0..<length ls]))"
    by (metis (no_types, lifting) image_eqI set_map)
qed

lemma collect_index_error_kind:
  "collect (map (\<lambda>i. index ls (i + k)) is) = Inl e \<Longrightarrow> e = IndexError"
  by (auto dest!: collect_Inl_D simp: index_def split: if_splits)

lemma extract_tally_names_indices:
  "extract_tally_names ls =
   collect (map (\<lambda>i. index ls (i + 2)) (filter (\<lambda>i. contains ''tally'' (ls ! i)) [0..<length ls]))"
  unfolding extract_tally_names_def by (simp only: comprehension_indices)

lemma extract_tally_values_indices:
  "extract_tally_values ls =
   collect (map (\<lambda>i. index ls (i + 1)) (filter (\<lambda>i. ls ! i = ''vals'') [0..<length ls]))"
  unfolding extract_tally_values_def
  using comprehension_indices [of ls 1 "\<lambda>line. line = ''vals''"] by simp

lemma extract_tally_names_Inl: "extract_tally_names ls = Inl e \<Longrightarrow> e = IndexError"
  unfolding extract_tally_names_indices by (rule collect_index_error_kind)

lemma extract_tally_values_Inl: "extract_tally_values ls = Inl e \<Longrightarrow> e = IndexError"
  unfolding extract_tally_values_indices by (rule collect_index_error_kind)

lemma extract_tally_names_length:
  "extract_tally_names ls = Inr tn \<Longrightarrow> length tn = length (filter (contains ''tally'') ls)"
  unfolding extract_tally_names_indices
  by (drule collect_length) (simp add: length_filter_indices)

lemma extract_tally_values_length:
  "extract_tally_values ls = Inr tv \<Longrightarrow> length tv = length (filter (\<lambda>l. l = ''vals'') ls)"
  unfolding extract_tally_values_indices
  using length_filter_indices [of "\<lambda>l. l = ''vals''" ls]
  by (drule_tac collect_length) simp

lemma extract_version_Cons: "\<exists>v. extract_version (l # ls) = Inr v"
  by (simp add: extract_version_def first_def)

lemma extract_particles_Cons: "\<exists>p. extract_particles (l # ls) = Inr p"
  by (simp add: extract_particles_def first_def split: option.splits)

section \<open>One file and the whole run\<close>

lemma extract_version_Nil: "extract_version [] = Inl IndexError"
  by (simp add: extract_version_def first_def)

lemma extract_particles_Nil: "extract_particles [] = Inl IndexError"
  by (simp add: extract_particles_def first_def)

lemma remove_blank_lines_Nil_iff:
  "remove_blank_lines raw = [] \<longleftrightarrow> (\<forall>line \<in> set raw. \<forall>c \<in> set line. is_space c)"
  by (simp add: remove_blank_lines_def filter_empty_conv strip_Nil_iff)

lemma process_file_Nil:
  "remove_blank_lines raw = [] \<Longrightarrow> process_file float_of file raw = Inl IndexError"
  by (simp add: process_file_def extract_version_Nil)

lemma process_file_Inr:
  assumes "process_file float_of file raw = Inr t"
  shows "\<exists>v p tv tn en es.
           extract_version (remove_blank_lines raw) = Inr v \<and>
           extract_particles (remove_blank_lines raw) = Inr p \<and>
           extract_tally_values (remove_blank_lines raw) = Inr tv \<and>
           extract_tally_names (remove_blank_lines raw) = Inr tn \<and>
           (\<forall>value \<in> set tv. split value \<noteq> []) \<and>
           floats float_of (map (\<lambda>value. hd (split value)) tv) = Inr en \<and>
           floats float_of (map (\<lambda>value. last (split value)) tv) = Inr es \<and>
           length tn = length tv \<and>
           t = \<lparr>Names = Text (splitext_root file) # map Text tn,
                Values = Text v # map Number en,
                Errors = Text p # map Number es\<rparr>"
proof -
  let ?ls = "remove_blank_lines raw"
  from assms obtain v where v: "extract_version ?ls = Inr v"
    by (auto simp: process_file_def Let_def split: sum.splits)
  from assms v obtain p where p: "extract_particles ?ls = Inr p"
    by (auto simp: process_file_def Let_def split: sum.splits)
  from assms v p obtain tv where tv: "extract_tally_values ?ls = Inr tv"
    by (auto simp: process_file_def Let_def split: sum.splits)
  from assms v p tv obtain tn where tn: "extract_tally_names ?ls = Inr tn"
    by (auto simp: process_file_def Let_def split: sum.splits)
  from assms v p tv tn obtain et where et: "extract_energies tv = Inr et"
    by (auto simp: process_file_def Let_def split: sum.splits)
  from assms v p tv tn et obtain en where en: "floats float_of et = Inr en"
    by (auto simp: process_file_def Let_def split: sum.splits)
  from assms v p tv tn et en obtain rt where rt: "extract_errors tv = Inr rt"
    by (auto simp: process_file_def Let_def split: sum.splits)
  from assms v p tv tn et en rt obtain es where es: "floats float_of rt = Inr es"
    by (auto simp: process_file_def Let_def split: sum.splits)
  from assms v p tv tn et en rt es have df:
    "DataFrame (Text (splitext_root file) # map Text tn) (Text v # map Number en)
       (Text p # map Number es) = Inr t"
    by (simp add: process_file_def Let_def)
  have ne: "\<forall>value \<in> set tv. split value \<noteq> []" and et_eq: "et = map (\<lambda>value. hd (split value)) tv"
    using et by (simp_all add: extract_energies_Inr_iff)
  have rt_eq: "rt = map (\<lambda>value. last (split value)) tv"
    using rt by (simp add: extract_errors_Inr_iff)
  have "length en = length et" using en by (drule_tac floats_Inr_D) (metis length_map)
  then have len_en: "length en = length tv" by (simp add: et_eq)
  from df have "length tn = length en" and t: "t = \<lparr>Names = Text (splitext_root file) # map Text tn,
                Values = Text v # map Number en,
                Errors = Text p # map Number es\<rparr>"
    by (auto simp: DataFrame_def split: if_splits)
  then have "length tn = length tv" using len_en by simp
  with v p tv tn ne en es t et_eq rt_eq show ?thesis by blast
qed

lemma process_file_index_error:
  assumes "remove_blank_lines raw \<noteq> []"
    and "extract_tally_values (remove_blank_lines raw) = Inl IndexError \<or>
         extract_tally_names (remove_blank_lines raw) = Inl IndexError"
  shows "process_file float_of file raw = Inl IndexError"
proof -
  let ?ls = "remove_blank_lines raw"
  obtain l ls' where ls: "?ls = l # ls'" using assms(1) by (cases ?ls) auto
  obtain v where v: "extract_version ?ls = Inr v"
    using extract_version_Cons [of l ls'] ls by auto
  obtain p where p: "extract_particles ?ls = Inr p"
    using extract_particles_Cons [of l ls'] ls by auto
  show ?thesis
  proof (cases "extract_tally_values ?ls")
    case (Inl e)
    then have "e = IndexError" by (rule extract_tally_values_Inl)
    with Inl v p show ?thesis by (simp add: process_file_def Let_def)
  next
    case (Inr tv)
    with assms(2) have "extract_tally_names ?ls = Inl IndexError" by simp
    with Inr v p show ?thesis by (simp add: process_file_def Let_def)
  qed
qed

lemma process_loop_Inl:
  assumes "file \<in> set files"
    and "read file = None \<or> (\<exists>raw e. read file = Some raw \<and> process_file float_of file raw = Inl e)"
  shows "\<exists>e. process_loop float_of read files results_df = Inl e"
  using assms
proof (induction files arbitrary: results_df)
  case Nil
  then show ?case by simp
next
  case (Cons f files)
  show ?case
  proof (cases "read f")
    case None
    then show ?thesis by simp
  next
    case (Some raw)
    show ?thesis
    proof (cases "process_file float_of f raw")
      case (Inl e)
      with Some show ?thesis by simp
    next
      case (Inr data_df)
      with Some Cons.prems have "file \<in> set files" by auto
      then have "\<exists>e. process_loop float_of read files (results_df @ [data_df]) = Inl e"
        using Cons.IH Cons.prems(2) by blast
      with Some Inr show ?thesis by simp
    qed
  qed
qed

lemma mctal_files_member:
  "file \<in> set listing \<Longrightarrow> endswith file ''.mctal'' \<Longrightarrow> file \<in> set (mctal_files listing)"
  by (simp add: mctal_files_def)

lemma run_aborts:
  assumes "file \<in> set listing" "endswith file ''.mctal''"
    and "read file = None \<or> (\<exists>raw e. read file = Some raw \<and> process_file float_of file raw = Inl e)"
  shows "(\<exists>e. process_files float_of listing read = Inl e) \<and> output_file float_of listing read = None"
proof -
  have "file \<in> set (mctal_files listing)" using assms(1,2) by (rule mctal_files_member)
  then have "\<exists>e. process_loop float_of read (mctal_files listing) [] = Inl e"
    using assms(3) by (rule process_loop_Inl)
  then obtain e where "process_files float_of listing read = Inl e"
    unfolding process_files_def by blast
  then show ?thesis by (simp add: output_file_def)
qed

section \<open>Blank files\<close>

text \<open>
  C10. A \<^verbatim>\<open>.mctal\<close> file whose lines are all blank or whitespace-only has an empty
  normalised line sequence; version and particle-count extraction then read the first
  line of an empty sequence and fail with an out-of-range error, so neither sentinel
  label is produced, the file fails, and a run over a directory that lists the file
  aborts without the output file.
\<close>

theorem blank_file_aborts:
  "(\<forall>line \<in> set raw_lines. \<forall>c \<in> set line. is_space c) \<longrightarrow>
     remove_blank_lines raw_lines = [] \<and>
     extract_version (remove_blank_lines raw_lines) = Inl IndexError \<and>
     extract_particles (remove_blank_lines raw_lines) = Inl IndexError \<and>
     process_file float_of file raw_lines = Inl IndexError \<and>
     (file \<in> set listing \<and> endswith file ''.mctal'' \<and> read file = Some raw_lines \<longrightarrow>
        (\<exists>e. process_files float_of listing read = Inl e) \<and>
        output_file float_of listing read = None)"
proof (intro impI conjI)
  assume a: "\<forall>line \<in> set raw_lines. \<forall>c \<in> set line. is_space c"
  then show nil: "remove_blank_lines raw_lines = []"
    by (simp only: remove_blank_lines_Nil_iff)
  show "extract_version (remove_blank_lines raw_lines) = Inl IndexError"
    by (simp only: nil extract_version_Nil)
  show "extract_particles (remove_blank_lines raw_lines) = Inl IndexError"
    by (simp only: nil extract_particles_Nil)
  show pf: "process_file float_of file raw_lines = Inl IndexError"
    using nil by (rule process_file_Nil)
  assume b: "file \<in> set listing \<and> endswith file ''.mctal'' \<and> read file = Some raw_lines"
  then have "read file = None \<or>
      (\<exists>raw e. read file = Some raw \<and> process_file float_of file raw = Inl e)"
    using pf by blast
  with b have r: "(\<exists>e. process_files float_of listing read = Inl e) \<and>
      output_file float_of listing read = None"
    using run_aborts [of "file" "listing" "read" "float_of"] by blast
  from r show "\<exists>e. process_files float_of listing read = Inl e" ..
  from r show "output_file float_of listing read = None" ..
qed

theorem blank_file_aborts_witness:
  "remove_blank_lines [''  '', [], [CHR 0x09, CHR 0x0D]] = [] \<and>
   extract_version (remove_blank_lines [''  '', [], [CHR 0x09, CHR 0x0D]]) = Inl IndexError \<and>
   extract_particles (remove_blank_lines [''  '', [], [CHR 0x09, CHR 0x0D]]) = Inl IndexError \<and>
   process_file (\<lambda>t. None :: int option) ''a.mctal'' [''  '', [], [CHR 0x09, CHR 0x0D]]
     = Inl IndexError \<and>
   output_file (\<lambda>t. None :: int option) [''a.mctal'']
     (\<lambda>f. Some [''  '', [], [CHR 0x09, CHR 0x0D]]) = None"
proof -
  have h: "\<forall>line \<in> set [''  '', [], [CHR 0x09, CHR 0x0D]]. \<forall>c \<in> set line. is_space c"
    by (simp add: is_space_def)
  have m: "''a.mctal'' \<in> set [''a.mctal''] \<and> endswith ''a.mctal'' ''.mctal''"
    by (simp add: endswith_def)
  show ?thesis
    using h m
      blank_file_aborts [of "[''  '', [], [CHR 0x09, CHR 0x0D]]" "\<lambda>t. None :: int option"
        "''a.mctal''" "[''a.mctal'']" "\<lambda>f. Some [''  '', [], [CHR 0x09, CHR 0x0D]]"]
    by blast
qed

section \<open>Matches too close to the end of the file\<close>

text \<open>
  C3. If a line containing \<^verbatim>\<open>tally\<close> has fewer than two lines after it, tally-name
  extraction fails with an out-of-range error; if a line equal to \<^verbatim>\<open>vals\<close> is the last
  line, tally-value extraction does. In either case the file fails with that error, and a
  run over a directory that lists the file ends before the export, so no output file is
  written. Conversely, when every match has the lines it needs after it, the extraction
  returns one entry per match, in order: the line two (names) or one (values) after it.
\<close>

theorem tally_match_near_end:
  "((\<exists>i < length file_lines. contains ''tally'' (file_lines ! i) \<and> length file_lines \<le> i + 2) \<longrightarrow>
      extract_tally_names file_lines = Inl IndexError) \<and>
   ((\<exists>i < length file_lines. file_lines ! i = ''vals'' \<and> length file_lines \<le> i + 1) \<longrightarrow>
      extract_tally_values file_lines = Inl IndexError) \<and>
   (remove_blank_lines raw_lines = file_lines \<and>
    ((\<exists>i < length file_lines. contains ''tally'' (file_lines ! i) \<and> length file_lines \<le> i + 2) \<or>
     (\<exists>i < length file_lines. file_lines ! i = ''vals'' \<and> length file_lines \<le> i + 1)) \<longrightarrow>
      process_file float_of file raw_lines = Inl IndexError \<and>
      (file \<in> set listing \<and> endswith file ''.mctal'' \<and> read file = Some raw_lines \<longrightarrow>
         (\<exists>e. process_files float_of listing read = Inl e) \<and>
         output_file float_of listing read = None)) \<and>
   ((\<forall>i < length file_lines. contains ''tally'' (file_lines ! i) \<longrightarrow> i + 2 < length file_lines) \<longrightarrow>
      extract_tally_names file_lines =
        Inr (map (\<lambda>i. file_lines ! (i + 2))
               (filter (\<lambda>i. contains ''tally'' (file_lines ! i)) [0..<length file_lines])) \<and>
      length (filter (\<lambda>i. contains ''tally'' (file_lines ! i)) [0..<length file_lines]) =
        length (filter (contains ''tally'') file_lines)) \<and>
   ((\<forall>i < length file_lines. file_lines ! i = ''vals'' \<longrightarrow> i + 1 < length file_lines) \<longrightarrow>
      extract_tally_values file_lines =
        Inr (map (\<lambda>i. file_lines ! (i + 1))
               (filter (\<lambda>i. file_lines ! i = ''vals'') [0..<length file_lines])) \<and>
      length (filter (\<lambda>i. file_lines ! i = ''vals'') [0..<length file_lines]) =
        length (filter (\<lambda>line. line = ''vals'') file_lines))"
proof -
  let ?near_t = "\<exists>i < length file_lines. contains ''tally'' (file_lines ! i) \<and> length file_lines \<le> i + 2"
  let ?near_v = "\<exists>i < length file_lines. file_lines ! i = ''vals'' \<and> length file_lines \<le> i + 1"
  have names_fail: "extract_tally_names file_lines = Inl IndexError" if ?near_t
  proof -
    from that obtain i where "i < length file_lines" "contains ''tally'' (file_lines ! i)"
      "length file_lines \<le> i + 2" by blast
    then show ?thesis
      unfolding extract_tally_names_indices by (rule collect_index_fails)
  qed
  have values_fail: "extract_tally_values file_lines = Inl IndexError" if ?near_v
  proof -
    from that obtain i where i: "i < length file_lines" "file_lines ! i = ''vals''"
      "length file_lines \<le> i + 1" by blast
    show ?thesis
      unfolding extract_tally_values_indices
      using collect_index_fails [of i file_lines "\<lambda>line. line = ''vals''" 1] i by simp
  qed
  have file_fails: "process_file float_of file raw_lines = Inl IndexError"
    if "remove_blank_lines raw_lines = file_lines" "?near_t \<or> ?near_v"
  proof -
    from that(2) have "file_lines \<noteq> []" by auto
    moreover have "extract_tally_values file_lines = Inl IndexError \<or>
        extract_tally_names file_lines = Inl IndexError"
      using that(2) names_fail values_fail by blast
    ultimately show ?thesis
      using process_file_index_error [of raw_lines float_of "file"] that(1) by simp
  qed
  have run: "(\<exists>e. process_files float_of listing read = Inl e) \<and>
      output_file float_of listing read = None"
    if "remove_blank_lines raw_lines = file_lines" "?near_t \<or> ?near_v"
      "file \<in> set listing \<and> endswith file ''.mctal'' \<and> read file = Some raw_lines"
  proof -
    have "read file = None \<or>
        (\<exists>raw e. read file = Some raw \<and> process_file float_of file raw = Inl e)"
      using file_fails [OF that(1,2)] that(3) by blast
    then show ?thesis using run_aborts [of "file" "listing" "read" "float_of"] that(3) by blast
  qed
  have names_ok: "extract_tally_names file_lines =
        Inr (map (\<lambda>i. file_lines ! (i + 2))
               (filter (\<lambda>i. contains ''tally'' (file_lines ! i)) [0..<length file_lines]))"
    if "\<forall>i < length file_lines. contains ''tally'' (file_lines ! i) \<longrightarrow> i + 2 < length file_lines"
    unfolding extract_tally_names_indices using that by (rule collect_index_ok)
  have values_ok: "extract_tally_values file_lines =
        Inr (map (\<lambda>i. file_lines ! (i + 1))
               (filter (\<lambda>i. file_lines ! i = ''vals'') [0..<length file_lines]))"
    if "\<forall>i < length file_lines. file_lines ! i = ''vals'' \<longrightarrow> i + 1 < length file_lines"
    unfolding extract_tally_values_indices
    using collect_index_ok [of file_lines "\<lambda>line. line = ''vals''" 1] that by simp
  have len_v: "length (filter (\<lambda>i. file_lines ! i = ''vals'') [0..<length file_lines]) =
        length (filter (\<lambda>line. line = ''vals'') file_lines)"
    using length_filter_indices [of "\<lambda>line. line = ''vals''" file_lines] by simp
  show ?thesis
    using names_fail values_fail file_fails run names_ok values_ok len_v
      length_filter_indices [of "contains ''tally''" file_lines]
    by blast
qed

theorem tally_match_near_end_witness:
  "extract_tally_names [''h'', ''tally 4'', ''f''] = Inl IndexError \<and>
   extract_tally_values [''mcnp 6 x'', ''vals''] = Inl IndexError \<and>
   process_file (\<lambda>t. Some t) ''a.mctal'' [''mcnp 6 x'', ''vals''] = Inl IndexError \<and>
   output_file (\<lambda>t. Some t) [''a.mctal''] (\<lambda>f. Some [''mcnp 6 x'', ''vals'']) = None \<and>
   extract_tally_names [''h'', ''tally 4'', ''f'', ''flux'', ''vals'', ''1.0 2.0 0.05''] =
     Inr [''flux''] \<and>
   extract_tally_values [''h'', ''tally 4'', ''f'', ''flux'', ''vals'', ''1.0 2.0 0.05''] =
     Inr [''1.0 2.0 0.05'']"
proof -
  let ?bad_t = "[''h'', ''tally 4'', ''f'']"
  let ?bad_v = "[''mcnp 6 x'', ''vals'']"
  let ?good = "[''h'', ''tally 4'', ''f'', ''flux'', ''vals'', ''1.0 2.0 0.05'']"
  have ht: "\<exists>i < length ?bad_t. contains ''tally'' (?bad_t ! i) \<and> length ?bad_t \<le> i + 2"
    by (intro exI [of _ 1]) simp
  have hv: "\<exists>i < length ?bad_v. ?bad_v ! i = ''vals'' \<and> length ?bad_v \<le> i + 1"
    by (intro exI [of _ 1]) simp
  have hn: "remove_blank_lines ?bad_v = ?bad_v"
    by code_simp
  have hm: "''a.mctal'' \<in> set [''a.mctal''] \<and> endswith ''a.mctal'' ''.mctal''"
    by (simp add: endswith_def)
  have gt: "\<forall>i < length ?good. contains ''tally'' (?good ! i) \<longrightarrow> i + 2 < length ?good"
    by (auto simp: nth_Cons' split: if_splits)
  have gv: "\<forall>i < length ?good. ?good ! i = ''vals'' \<longrightarrow> i + 1 < length ?good"
    by (auto simp: nth_Cons' split: if_splits)
  have a: "extract_tally_names ?bad_t = Inl IndexError"
    using ht tally_match_near_end [of ?bad_t] by blast
  have b: "extract_tally_values ?bad_v = Inl IndexError \<and>
      process_file (\<lambda>t. Some t) ''a.mctal'' ?bad_v = Inl IndexError \<and>
      output_file (\<lambda>t. Some t) [''a.mctal''] (\<lambda>f. Some ?bad_v) = None"
    using hv hn hm
      tally_match_near_end [of ?bad_v ?bad_v "\<lambda>t. Some t" "''a.mctal''" "[''a.mctal'']"
        "\<lambda>f. Some ?bad_v"]
    by blast
  have c: "extract_tally_names ?good =
        Inr (map (\<lambda>i. ?good ! (i + 2))
               (filter (\<lambda>i. contains ''tally'' (?good ! i)) [0..<length ?good])) \<and>
      extract_tally_values ?good =
        Inr (map (\<lambda>i. ?good ! (i + 1))
               (filter (\<lambda>i. ?good ! i = ''vals'') [0..<length ?good]))"
    using gt gv tally_match_near_end [of ?good] by blast
  have d: "map (\<lambda>i. ?good ! (i + 2))
               (filter (\<lambda>i. contains ''tally'' (?good ! i)) [0..<length ?good]) = [''flux'']"
    by code_simp
  have e: "map (\<lambda>i. ?good ! (i + 1))
               (filter (\<lambda>i. ?good ! i = ''vals'') [0..<length ?good]) = [''1.0 2.0 0.05'']"
    by code_simp
  show ?thesis using a b c d e by simp
qed


section \<open>The table of one file\<close>

lemma remove_blank_lines_nonblank:
  "\<forall>line \<in> set (remove_blank_lines raw). split line \<noteq> []"
proof
  fix line assume "line \<in> set (remove_blank_lines raw)"
  then obtain x where x: "line = strip x" "strip x \<noteq> []"
    by (auto simp: remove_blank_lines_def)
  then have "strip (strip x) \<noteq> []" by (simp add: strip_strip)
  then have "\<exists>c \<in> set (strip x). \<not> is_space c" by (simp add: strip_Nil_iff)
  then show "split line \<noteq> []" using x by (simp add: split_Nil_iff)
qed

lemma collect_index_subset:
  "collect (map (\<lambda>i. index ls (i + k)) is) = Inr xs \<Longrightarrow> set xs \<subseteq> set ls"
proof (induction "is" arbitrary: xs)
  case Nil
  then show ?case by simp
next
  case (Cons i "is")
  from Cons.prems obtain ys where "i + k < length ls" "xs = ls ! (i + k) # ys"
    "collect (map (\<lambda>i. index ls (i + k)) is) = Inr ys"
    by (auto simp: index_def split: sum.splits if_splits)
  then show ?case using Cons.IH by auto
qed

lemma extract_tally_values_subset:
  "extract_tally_values ls = Inr tv \<Longrightarrow> set tv \<subseteq> set ls"
  unfolding extract_tally_values_indices by (rule collect_index_subset)

lemma process_file_lengths_error:
  assumes ne: "remove_blank_lines raw \<noteq> []"
    and tv: "extract_tally_values (remove_blank_lines raw) = Inr tv"
    and tn: "extract_tally_names (remove_blank_lines raw) = Inr tn"
    and en: "floats float_of (map (\<lambda>v. hd (split v)) tv) = Inr en"
    and es: "floats float_of (map (\<lambda>v. last (split v)) tv) = Inr es"
    and neq: "length tn \<noteq> length tv"
  shows "process_file float_of file raw = Inl ValueError_lengths"
proof -
  let ?ls = "remove_blank_lines raw"
  obtain l ls' where ls: "?ls = l # ls'" using ne by (cases ?ls) auto
  obtain v where v: "extract_version ?ls = Inr v"
    using extract_version_Cons [of l ls'] ls by auto
  obtain p where p: "extract_particles ?ls = Inr p"
    using extract_particles_Cons [of l ls'] ls by auto
  have nb: "\<forall>value \<in> set tv. split value \<noteq> []"
    using extract_tally_values_subset [OF tv] remove_blank_lines_nonblank [of raw] by blast
  have et: "extract_energies tv = Inr (map (\<lambda>v. hd (split v)) tv)"
    using nb by (simp add: extract_energies_Inr_iff)
  have rt: "extract_errors tv = Inr (map (\<lambda>v. last (split v)) tv)"
    using nb by (simp add: extract_errors_Inr_iff)
  have "length en = length (map (\<lambda>v. hd (split v)) tv)"
    using en by (drule_tac floats_Inr_D) (metis length_map)
  then have "length tn \<noteq> length en" using neq by simp
  then show ?thesis
    using v p tv tn et rt en es by (simp add: process_file_def Let_def DataFrame_def)
qed


lemma rfind_append_suffix:
  assumes "c \<notin> set post"
  shows "rfind c (pre @ c # post) = int (length pre)"
proof -
  have "takeWhile (\<lambda>x. x \<noteq> c) (rev post @ c # rev pre) = rev post"
    using assms by (auto simp: takeWhile_tail)
  then show ?thesis by (simp add: rfind_def)
qed

lemma splitext_root_mctal:
  assumes "CHR ''/'' \<notin> set base" "\<exists>c \<in> set base. c \<noteq> CHR ''.''"
  shows "splitext_root (base @ ''.mctal'') = base"
proof -
  have d: "rfind CHR ''.'' (base @ ''.mctal'') = int (length base)"
    using rfind_append_suffix [of "CHR ''.''" "''mctal''" base] by simp
  have s: "rfind CHR ''/'' (base @ ''.mctal'') = - 1"
    using assms(1) by (simp add: rfind_def)
  show ?thesis
    using assms(2) by (simp add: splitext_root_def d s list_ex_iff)
qed


text \<open>
  C4. For a file that is processed successfully, the first \<open>Names\<close> cell of its table is
  the file's base name without extension (\<^verbatim>\<open>os.path.splitext(file)[0]\<close>, which for a name
  \<open>base.mctal\<close> whose base is not made of dots only is \<open>base\<close>), the first \<open>Values\<close>
  cell is the version label, the first \<open>Errors\<close> cell is the particle-count label, and
  each of the three columns has one row more than there are extracted tally names.
\<close>

theorem per_file_table:
  "(process_file float_of file raw_lines = Inr t \<longrightarrow>
      (\<exists>version particles names.
         extract_version (remove_blank_lines raw_lines) = Inr version \<and>
         extract_particles (remove_blank_lines raw_lines) = Inr particles \<and>
         extract_tally_names (remove_blank_lines raw_lines) = Inr names \<and>
         hd (Names t) = Text (splitext_root file) \<and>
         hd (Values t) = Text version \<and>
         hd (Errors t) = Text particles \<and>
         length (Names t) = 1 + length names \<and>
         length (Values t) = 1 + length names \<and>
         length (Errors t) = 1 + length names)) \<and>
   (CHR ''/'' \<notin> set base \<and> (\<exists>c \<in> set base. c \<noteq> CHR ''.'') \<longrightarrow>
      splitext_root (base @ ''.mctal'') = base)"
proof (intro conjI impI)
  assume "process_file float_of file raw_lines = Inr t"
  from process_file_Inr [OF this] obtain v p tv tn en es where h:
    "extract_version (remove_blank_lines raw_lines) = Inr v"
    "extract_particles (remove_blank_lines raw_lines) = Inr p"
    "extract_tally_names (remove_blank_lines raw_lines) = Inr tn"
    "floats float_of (map (\<lambda>value. hd (split value)) tv) = Inr en"
    "floats float_of (map (\<lambda>value. last (split value)) tv) = Inr es"
    "length tn = length tv"
    "t = \<lparr>Names = Text (splitext_root file) # map Text tn,
          Values = Text v # map Number en, Errors = Text p # map Number es\<rparr>"
    by blast
  have "length en = length (map (\<lambda>value. hd (split value)) tv)"
    using h(4) by (drule_tac floats_Inr_D) (metis length_map)
  moreover have "length es = length (map (\<lambda>value. last (split value)) tv)"
    using h(5) by (drule_tac floats_Inr_D) (metis length_map)
  ultimately have "length en = length tn" "length es = length tn" using h(6) by simp_all
  with h show "\<exists>version particles names.
         extract_version (remove_blank_lines raw_lines) = Inr version \<and>
         extract_particles (remove_blank_lines raw_lines) = Inr particles \<and>
         extract_tally_names (remove_blank_lines raw_lines) = Inr names \<and>
         hd (Names t) = Text (splitext_root file) \<and>
         hd (Values t) = Text version \<and>
         hd (Errors t) = Text particles \<and>
         length (Names t) = 1 + length names \<and>
         length (Values t) = 1 + length names \<and>
         length (Errors t) = 1 + length names"
    by simp
next
  assume "CHR ''/'' \<notin> set base \<and> (\<exists>c \<in> set base. c \<noteq> CHR ''.'')"
  then show "splitext_root (base @ ''.mctal'') = base"
    by (simp add: splitext_root_mctal)
qed

theorem per_file_table_witness:
  "process_file (\<lambda>t. if t = ''abc'' then None else Some t) ''run1.mctal''
     [''mcnp 6 x 12345678 9'', ''tally 4'', ''f'', ''flux'', ''  '', ''vals'', '' 1.0 2.0 0.05''] =
     Inr \<lparr>Names = [Text ''run1'', Text ''flux''],
          Values = [Text ''MCNP6'', Number ''1.0''],
          Errors = [Text ''NPS: 12345678'', Number ''0.05'']\<rparr> \<and>
   extract_tally_names (remove_blank_lines
     [''mcnp 6 x 12345678 9'', ''tally 4'', ''f'', ''flux'', ''  '', ''vals'', '' 1.0 2.0 0.05'']) =
     Inr [''flux''] \<and>
   hd (Names \<lparr>Names = [Text ''run1'', Text ''flux''],
          Values = [Text ''MCNP6'', Number ''1.0''],
          Errors = [Text ''NPS: 12345678'', Number ''0.05'']\<rparr>) =
     Text (splitext_root ''run1.mctal'') \<and>
   splitext_root (''run1'' @ ''.mctal'') = ''run1''"
proof -
  let ?fo = "\<lambda>t. if t = ''abc'' then None else Some t"
  let ?raw = "[''mcnp 6 x 12345678 9'', ''tally 4'', ''f'', ''flux'', ''  '', ''vals'', '' 1.0 2.0 0.05'']"
  let ?t = "\<lparr>Names = [Text ''run1'', Text ''flux''],
          Values = [Text ''MCNP6'', Number ''1.0''],
          Errors = [Text ''NPS: 12345678'', Number ''0.05'']\<rparr>"
  have e: "process_file ?fo ''run1.mctal'' ?raw = Inr ?t"
    by code_simp
  have n: "extract_tally_names (remove_blank_lines ?raw) = Inr [''flux'']"
    by code_simp
  have b: "CHR ''/'' \<notin> set ''run1'' \<and> (\<exists>c \<in> set ''run1''. c \<noteq> CHR ''.'')"
    by simp
  note th = per_file_table [of ?fo "''run1.mctal''" ?raw ?t "''run1''"]
  have "process_file ?fo ''run1.mctal'' ?raw = Inr ?t \<longrightarrow>
      (\<exists>version particles names.
         extract_version (remove_blank_lines ?raw) = Inr version \<and>
         extract_particles (remove_blank_lines ?raw) = Inr particles \<and>
         extract_tally_names (remove_blank_lines ?raw) = Inr names \<and>
         hd (Names ?t) = Text (splitext_root ''run1.mctal'') \<and>
         hd (Values ?t) = Text version \<and>
         hd (Errors ?t) = Text particles \<and>
         length (Names ?t) = 1 + length names \<and>
         length (Values ?t) = 1 + length names \<and>
         length (Errors ?t) = 1 + length names)"
    using th by (rule conjunct1)
  then have "\<exists>version particles names.
         extract_version (remove_blank_lines ?raw) = Inr version \<and>
         extract_particles (remove_blank_lines ?raw) = Inr particles \<and>
         extract_tally_names (remove_blank_lines ?raw) = Inr names \<and>
         hd (Names ?t) = Text (splitext_root ''run1.mctal'') \<and>
         hd (Values ?t) = Text version \<and>
         hd (Errors ?t) = Text particles \<and>
         length (Names ?t) = 1 + length names \<and>
         length (Values ?t) = 1 + length names \<and>
         length (Errors ?t) = 1 + length names"
    using e by (rule mp)
  then have h: "hd (Names ?t) = Text (splitext_root ''run1.mctal'')"
    by (elim exE conjE)
  have "CHR ''/'' \<notin> set ''run1'' \<and> (\<exists>c \<in> set ''run1''. c \<noteq> CHR ''.'') \<longrightarrow>
      splitext_root (''run1'' @ ''.mctal'') = ''run1''"
    using th by (rule conjunct2)
  then have s: "splitext_root (''run1'' @ ''.mctal'') = ''run1''"
    using b by (rule mp)
  from e n h s show ?thesis by (intro conjI)
qed

section \<open>Failures abort the batch\<close>

lemma floats_ok_all:
  assumes "floats float_of (map g xs) = Inr ys"
  shows "\<forall>x \<in> set xs. float_of (g x) \<noteq> None"
proof (rule ballI, rule notI)
  fix x assume "x \<in> set xs" "float_of (g x) = None"
  then have "\<exists>e. floats float_of (map g xs) = Inl e"
    by (intro floats_Inl [of float_of "g x"]) auto
  with assms show False by simp
qed


text \<open>
  C6. If the processing of any \<^verbatim>\<open>.mctal\<close> file of the directory fails (the file cannot be
  read, or its loop body raises: an out-of-range access, a token that \<^verbatim>\<open>float\<close> rejects, or
  anything else), the run ends with an error before the export, whatever tables were
  accumulated before, and \<^verbatim>\<open>tally_extractor.xlsx\<close> is not written. A tally value whose first
  or last token is not numeric is such a failure.
\<close>

theorem batch_aborts_on_any_failure:
  "(file \<in> set listing \<and> endswith file ''.mctal'' \<and>
    (read file = None \<or>
     (\<exists>raw_lines e. read file = Some raw_lines \<and> process_file float_of file raw_lines = Inl e)) \<longrightarrow>
      (\<exists>e. process_files float_of listing read = Inl e) \<and>
      output_file float_of listing read = None \<and>
      (\<forall>results_df. \<exists>e. process_loop float_of read (mctal_files listing) results_df = Inl e)) \<and>
   (extract_tally_values (remove_blank_lines raw) = Inr tally_values \<and>
    value \<in> set tally_values \<and>
    (float_of (hd (split value)) = None \<or> float_of (last (split value)) = None) \<longrightarrow>
      (\<exists>e. process_file float_of name raw = Inl e))"
proof (intro conjI impI)
  assume a: "file \<in> set listing \<and> endswith file ''.mctal'' \<and>
    (read file = None \<or>
     (\<exists>raw_lines e. read file = Some raw_lines \<and> process_file float_of file raw_lines = Inl e))"
  then have r: "(\<exists>e. process_files float_of listing read = Inl e) \<and>
      output_file float_of listing read = None"
    using run_aborts [of "file" "listing" "read" "float_of"] by blast
  from r show "\<exists>e. process_files float_of listing read = Inl e" ..
  from r show "output_file float_of listing read = None" ..
  from a have "file \<in> set (mctal_files listing)" by (simp add: mctal_files_member)
  then show "\<forall>results_df. \<exists>e. process_loop float_of read (mctal_files listing) results_df = Inl e"
    using a process_loop_Inl [of "file" "mctal_files listing" "read" "float_of"] by blast
next
  assume b: "extract_tally_values (remove_blank_lines raw) = Inr tally_values \<and>
    value \<in> set tally_values \<and>
    (float_of (hd (split value)) = None \<or> float_of (last (split value)) = None)"
  show "\<exists>e. process_file float_of name raw = Inl e"
  proof (cases "process_file float_of name raw")
    case (Inl e)
    then show ?thesis by blast
  next
    case (Inr t)
    then obtain en es where
      "floats float_of (map (\<lambda>value. hd (split value)) tally_values) = Inr en"
      "floats float_of (map (\<lambda>value. last (split value)) tally_values) = Inr es"
      using process_file_Inr [OF Inr] b by auto
    then have "\<forall>v \<in> set tally_values. float_of (hd (split v)) \<noteq> None"
      and "\<forall>v \<in> set tally_values. float_of (last (split v)) \<noteq> None"
      by (blast dest: floats_ok_all)+
    with b show ?thesis by blast
  qed
qed

theorem batch_aborts_on_any_failure_witness:
  "''b.mctal'' \<in> set [''b.mctal'', ''a.mctal''] \<and> endswith ''b.mctal'' ''.mctal'' \<and>
   process_file (\<lambda>t. if t = ''abc'' then None else Some t) ''a.mctal''
     [''mcnp 6 x 12345678 9'', ''tally 4'', ''f'', ''flux'', ''vals'', ''1.0 2.0 0.05''] =
     Inr \<lparr>Names = [Text ''a'', Text ''flux''],
          Values = [Text ''MCNP6'', Number ''1.0''],
          Errors = [Text ''NPS: 12345678'', Number ''0.05'']\<rparr> \<and>
   process_file (\<lambda>t. if t = ''abc'' then None else Some t) ''b.mctal''
     [''mcnpx 1'', ''vals'', ''abc 1''] = Inl (ValueError_float ''abc'') \<and>
   output_file (\<lambda>t. if t = ''abc'' then None else Some t) [''b.mctal'', ''a.mctal'']
     (\<lambda>f. if f = ''a.mctal''
          then Some [''mcnp 6 x 12345678 9'', ''tally 4'', ''f'', ''flux'', ''vals'', ''1.0 2.0 0.05'']
          else Some [''mcnpx 1'', ''vals'', ''abc 1'']) = None"
proof -
  let ?fo = "\<lambda>t. if t = ''abc'' then None else Some t"
  let ?good = "[''mcnp 6 x 12345678 9'', ''tally 4'', ''f'', ''flux'', ''vals'', ''1.0 2.0 0.05'']"
  let ?bad = "[''mcnpx 1'', ''vals'', ''abc 1'']"
  let ?read = "\<lambda>f. if f = ''a.mctal'' then Some ?good else Some ?bad"
  have m: "''b.mctal'' \<in> set [''b.mctal'', ''a.mctal''] \<and> endswith ''b.mctal'' ''.mctal''"
    by (simp add: endswith_def)
  have g: "process_file ?fo ''a.mctal'' ?good =
     Inr \<lparr>Names = [Text ''a'', Text ''flux''],
          Values = [Text ''MCNP6'', Number ''1.0''],
          Errors = [Text ''NPS: 12345678'', Number ''0.05'']\<rparr>"
    by code_simp
  have b: "process_file ?fo ''b.mctal'' ?bad = Inl (ValueError_float ''abc'')"
    by code_simp
  have r: "?read ''b.mctal'' = Some ?bad" by simp
  have "output_file ?fo [''b.mctal'', ''a.mctal''] ?read = None"
    using m b r
      batch_aborts_on_any_failure [of "''b.mctal''" "[''b.mctal'', ''a.mctal'']" ?read ?fo]
    by blast
  with m g b show ?thesis by blast
qed

section \<open>Unequal numbers of tally and vals lines\<close>

text \<open>
  C9, as amended. For a file in which the number of normalised lines containing
  \<^verbatim>\<open>tally\<close> differs from the number of lines equal to \<^verbatim>\<open>vals\<close>, processing fails and the
  run aborts with no output file: at the table construction, with the Names and Values
  sequences of unequal lengths, when the extraction and conversion steps before it all
  succeed, and at the first of those steps that raises otherwise. A per-file table is only
  built when the two counts are equal.
\<close>

theorem tally_vals_count_mismatch:
  "(remove_blank_lines raw_lines = file_lines \<and>
    length (filter (contains ''tally'') file_lines) \<noteq>
      length (filter (\<lambda>line. line = ''vals'') file_lines) \<longrightarrow>
      (\<exists>e. process_file float_of file raw_lines = Inl e) \<and>
      (\<forall>tv tn en es.
         extract_tally_values file_lines = Inr tv \<and> extract_tally_names file_lines = Inr tn \<and>
         floats float_of (map (\<lambda>v. hd (split v)) tv) = Inr en \<and>
         floats float_of (map (\<lambda>v. last (split v)) tv) = Inr es \<longrightarrow>
           1 + length tn \<noteq> 1 + length en \<and>
           process_file float_of file raw_lines = Inl ValueError_lengths) \<and>
      (file \<in> set listing \<and> endswith file ''.mctal'' \<and> read file = Some raw_lines \<longrightarrow>
         (\<exists>e. process_files float_of listing read = Inl e) \<and>
         output_file float_of listing read = None)) \<and>
   (process_file float_of file raw_lines = Inr t \<longrightarrow>
      length (filter (contains ''tally'') (remove_blank_lines raw_lines)) =
        length (filter (\<lambda>line. line = ''vals'') (remove_blank_lines raw_lines)))"
proof -
  have conv: "length (filter (contains ''tally'') (remove_blank_lines raw)) =
        length (filter (\<lambda>line. line = ''vals'') (remove_blank_lines raw))"
    if "process_file float_of file raw = Inr t" for raw t
  proof -
    from process_file_Inr [OF that] obtain tv tn where
      "extract_tally_values (remove_blank_lines raw) = Inr tv"
      "extract_tally_names (remove_blank_lines raw) = Inr tn" "length tn = length tv"
      by blast
    then show ?thesis
      by (simp add: extract_tally_names_length extract_tally_values_length)
  qed
  have fails: "\<exists>e. process_file float_of file raw_lines = Inl e"
    if "remove_blank_lines raw_lines = file_lines"
      "length (filter (contains ''tally'') file_lines) \<noteq>
       length (filter (\<lambda>line. line = ''vals'') file_lines)"
  proof (cases "process_file float_of file raw_lines")
    case (Inl e)
    then show ?thesis by blast
  next
    case (Inr t)
    from conv [OF Inr] that show ?thesis by simp
  qed
  have kind: "1 + length tn \<noteq> 1 + length en \<and>
           process_file float_of file raw_lines = Inl ValueError_lengths"
    if "remove_blank_lines raw_lines = file_lines"
      "length (filter (contains ''tally'') file_lines) \<noteq>
       length (filter (\<lambda>line. line = ''vals'') file_lines)"
      "extract_tally_values file_lines = Inr tv" "extract_tally_names file_lines = Inr tn"
      "floats float_of (map (\<lambda>v. hd (split v)) tv) = Inr en"
      "floats float_of (map (\<lambda>v. last (split v)) tv) = Inr es"
    for tv tn en es
  proof -
    have ne: "remove_blank_lines raw_lines \<noteq> []" using that(1,2) by auto
    have neq: "length tn \<noteq> length tv"
      using that(2,3,4) by (simp add: extract_tally_names_length extract_tally_values_length)
    have "length en = length (map (\<lambda>v. hd (split v)) tv)"
      using that(5) by (drule_tac floats_Inr_D) (metis length_map)
    then have "length tn \<noteq> length en" using neq by simp
    moreover have "process_file float_of file raw_lines = Inl ValueError_lengths"
      using process_file_lengths_error [OF ne _ _ _ _ neq, of float_of en es "file"] that by simp
    ultimately show ?thesis by simp
  qed
  have run: "(\<exists>e. process_files float_of listing read = Inl e) \<and>
         output_file float_of listing read = None"
    if "remove_blank_lines raw_lines = file_lines"
      "length (filter (contains ''tally'') file_lines) \<noteq>
       length (filter (\<lambda>line. line = ''vals'') file_lines)"
      "file \<in> set listing \<and> endswith file ''.mctal'' \<and> read file = Some raw_lines"
  proof -
    have "read file = None \<or>
        (\<exists>raw e. read file = Some raw \<and> process_file float_of file raw = Inl e)"
      using fails [OF that(1,2)] that(3) by blast
    then show ?thesis using run_aborts [of "file" "listing" "read" "float_of"] that(3) by blast
  qed
  show ?thesis
    using conv [of raw_lines t] fails kind run by blast
qed

theorem tally_vals_count_mismatch_witness:
  "length (filter (contains ''tally'') [''mcnp 6'', ''tally 4'', ''f'', ''flux'', ''end'']) \<noteq>
     length (filter (\<lambda>line. line = ''vals'') [''mcnp 6'', ''tally 4'', ''f'', ''flux'', ''end'']) \<and>
   process_file (\<lambda>t. Some t) ''a.mctal'' [''mcnp 6'', ''tally 4'', ''f'', ''flux'', ''end''] =
     Inl ValueError_lengths \<and>
   output_file (\<lambda>t. Some t) [''a.mctal'']
     (\<lambda>f. Some [''mcnp 6'', ''tally 4'', ''f'', ''flux'', ''end'']) = None"
proof -
  let ?raw = "[''mcnp 6'', ''tally 4'', ''f'', ''flux'', ''end'']"
  have n: "remove_blank_lines ?raw = ?raw" by code_simp
  have c: "length (filter (contains ''tally'') ?raw) \<noteq>
     length (filter (\<lambda>line. line = ''vals'') ?raw)" by code_simp
  have tv: "extract_tally_values ?raw = Inr []" by code_simp
  have tn: "extract_tally_names ?raw = Inr [''flux'']" by code_simp
  have f: "floats (\<lambda>t. Some t) (map (\<lambda>v. hd (split v)) []) = Inr []"
    "floats (\<lambda>t. Some t) (map (\<lambda>v. last (split v)) []) = Inr []"
    by (simp_all add: floats_def)
  have m: "''a.mctal'' \<in> set [''a.mctal''] \<and> endswith ''a.mctal'' ''.mctal''"
    by (simp add: endswith_def)
  show ?thesis
    using n c tv tn f m
      tally_vals_count_mismatch [of ?raw ?raw "\<lambda>t. Some t" "''a.mctal''" "[''a.mctal'']"
        "\<lambda>f. Some ?raw"]
    by blast
qed

text \<open>
  The claim C9 as stated, that the failure is always the table construction on sequences
  of unequal lengths, fails on the two-line file below: one line contains \<^verbatim>\<open>tally\<close>, none
  is \<^verbatim>\<open>vals\<close>, and the run has already ended in \<^verbatim>\<open>extract_tally_names\<close>, with an
  out-of-range error, before any Names sequence exists.
\<close>

theorem tally_vals_count_mismatch_counterexample:
  "length (filter (contains ''tally'') (remove_blank_lines [''mcnp 6'', ''tally 4''])) \<noteq>
     length (filter (\<lambda>line. line = ''vals'') (remove_blank_lines [''mcnp 6'', ''tally 4''])) \<and>
   extract_tally_names (remove_blank_lines [''mcnp 6'', ''tally 4'']) = Inl IndexError \<and>
   process_file (\<lambda>t. Some t) ''a.mctal'' [''mcnp 6'', ''tally 4''] = Inl IndexError \<and>
   process_file (\<lambda>t. Some t) ''a.mctal'' [''mcnp 6'', ''tally 4''] \<noteq> Inl ValueError_lengths"
proof -
  have n: "remove_blank_lines [''mcnp 6'', ''tally 4''] = [''mcnp 6'', ''tally 4'']"
    by code_simp
  have a: "length (filter (contains ''tally'') [''mcnp 6'', ''tally 4'']) = 1"
    by code_simp
  have b: "length (filter (\<lambda>line. line = ''vals'') [''mcnp 6'', ''tally 4'']) = 0"
    by code_simp
  have c: "extract_tally_names [''mcnp 6'', ''tally 4''] = Inl IndexError"
    by code_simp
  have d: "process_file (\<lambda>t. Some t) ''a.mctal'' [''mcnp 6'', ''tally 4''] = Inl IndexError"
    by code_simp
  show ?thesis
    by (simp only: n a b c d) simp
qed

section \<open>First and last token of a value block\<close>

lemma floats_ok:
  assumes "\<forall>tok \<in> set tokens. float_of tok \<noteq> None"
  shows "floats float_of tokens = Inr (map (\<lambda>tok. the (float_of tok)) tokens)"
  unfolding floats_def
proof (rule collect_map_ok)
  show "\<forall>tok \<in> set tokens.
      (case float_of tok of None \<Rightarrow> Inl (ValueError_float tok) | Some x \<Rightarrow> Inr x) =
      Inr (the (float_of tok))"
    using assms by (auto split: option.splits)
qed

lemma process_file_succeeds:
  assumes ne: "remove_blank_lines raw \<noteq> []"
    and tv: "extract_tally_values (remove_blank_lines raw) = Inr tv"
    and tn: "extract_tally_names (remove_blank_lines raw) = Inr tn"
    and len: "length tn = length tv"
    and fl: "\<forall>value \<in> set tv.
       float_of (hd (split value)) \<noteq> None \<and> float_of (last (split value)) \<noteq> None"
  shows "\<exists>t. process_file float_of file raw = Inr t \<and>
         tl (Values t) = map (\<lambda>value. Number (the (float_of (hd (split value))))) tv \<and>
         tl (Errors t) = map (\<lambda>value. Number (the (float_of (last (split value))))) tv"
proof -
  let ?ls = "remove_blank_lines raw"
  obtain l ls' where ls: "?ls = l # ls'" using ne by (cases ?ls) auto
  obtain v where v: "extract_version ?ls = Inr v"
    using extract_version_Cons [of l ls'] ls by auto
  obtain p where p: "extract_particles ?ls = Inr p"
    using extract_particles_Cons [of l ls'] ls by auto
  have nb: "\<forall>value \<in> set tv. split value \<noteq> []"
    using extract_tally_values_subset [OF tv] remove_blank_lines_nonblank [of raw] by blast
  have et: "extract_energies tv = Inr (map (\<lambda>v. hd (split v)) tv)"
    using nb by (simp add: extract_energies_Inr_iff)
  have rt: "extract_errors tv = Inr (map (\<lambda>v. last (split v)) tv)"
    using nb by (simp add: extract_errors_Inr_iff)
  have en: "floats float_of (map (\<lambda>v. hd (split v)) tv) =
      Inr (map (\<lambda>tok. the (float_of tok)) (map (\<lambda>v. hd (split v)) tv))"
    using fl by (intro floats_ok) simp
  have es: "floats float_of (map (\<lambda>v. last (split v)) tv) =
      Inr (map (\<lambda>tok. the (float_of tok)) (map (\<lambda>v. last (split v)) tv))"
    using fl by (intro floats_ok) simp
  have "process_file float_of file raw =
      Inr \<lparr>Names = Text (splitext_root file) # map Text tn,
           Values = Text v # map Number (map (\<lambda>tok. the (float_of tok)) (map (\<lambda>v. hd (split v)) tv)),
           Errors = Text p # map Number (map (\<lambda>tok. the (float_of tok)) (map (\<lambda>v. last (split v)) tv))\<rparr>"
    using v p tv tn et rt en es len by (simp add: process_file_def Let_def DataFrame_def)
  then show ?thesis by (simp add: o_def)
qed

text \<open>
  C1. For value-block lines (each with at least one token), \<^verbatim>\<open>extract_energies\<close> returns
  the first whitespace-delimited token of every line and \<^verbatim>\<open>extract_errors\<close> the last one:
  the run of non-whitespace characters after the leading whitespace, and the one before
  the trailing whitespace. For a line with exactly one token the two are the same token.
  Each token is then parsed as a floating-point number: in the table of a processed file
  the cells below the header row are these tokens converted by \<^verbatim>\<open>float\<close>; and a file
  whose extractions succeed with as many names as values, and whose first and last tokens
  \<^verbatim>\<open>float\<close> accepts, is processed, with exactly these converted tokens as its cells.
\<close>

theorem value_block_tokens:
  "((\<forall>value \<in> set tally_values. split value \<noteq> []) \<longrightarrow>
      extract_energies tally_values = Inr (map (\<lambda>value. hd (split value)) tally_values) \<and>
      extract_errors tally_values = Inr (map (\<lambda>value. last (split value)) tally_values) \<and>
      (\<forall>value \<in> set tally_values.
         hd (split value) = takeWhile (\<lambda>c. \<not> is_space c) (dropWhile is_space value) \<and>
         last (split value) =
           rev (takeWhile (\<lambda>c. \<not> is_space c) (dropWhile is_space (rev value))) \<and>
         (length (split value) = 1 \<longrightarrow> hd (split value) = last (split value)))) \<and>
   (process_file float_of file raw_lines = Inr t \<longrightarrow>
      (\<exists>values. extract_tally_values (remove_blank_lines raw_lines) = Inr values \<and>
         (\<forall>value \<in> set values. split value \<noteq> []) \<and>
         map (\<lambda>value. map_option Number (float_of (hd (split value)))) values =
           map Some (tl (Values t)) \<and>
         map (\<lambda>value. map_option Number (float_of (last (split value)))) values =
           map Some (tl (Errors t)))) \<and>
   (remove_blank_lines raw_lines \<noteq> [] \<and>
    extract_tally_values (remove_blank_lines raw_lines) = Inr values \<and>
    extract_tally_names (remove_blank_lines raw_lines) = Inr names \<and>
    length names = length values \<and>
    (\<forall>value \<in> set values.
       float_of (hd (split value)) \<noteq> None \<and> float_of (last (split value)) \<noteq> None) \<longrightarrow>
      (\<exists>t. process_file float_of file raw_lines = Inr t \<and>
         tl (Values t) = map (\<lambda>value. Number (the (float_of (hd (split value))))) values \<and>
         tl (Errors t) = map (\<lambda>value. Number (the (float_of (last (split value))))) values))"
proof (intro conjI impI ballI)
  assume ne: "\<forall>value \<in> set tally_values. split value \<noteq> []"
  show "extract_energies tally_values = Inr (map (\<lambda>value. hd (split value)) tally_values)"
    using ne by (simp add: extract_energies_Inr_iff)
  show "extract_errors tally_values = Inr (map (\<lambda>value. last (split value)) tally_values)"
    using ne by (simp add: extract_errors_Inr_iff)
  fix v assume v: "v \<in> set tally_values"
  then have "split v \<noteq> []" using ne by blast
  then show "hd (split v) = takeWhile (\<lambda>c. \<not> is_space c) (dropWhile is_space v)"
    and "last (split v) = rev (takeWhile (\<lambda>c. \<not> is_space c) (dropWhile is_space (rev v)))"
    by (simp_all add: hd_split last_split)
  assume "length (split v) = 1"
  then show "hd (split v) = last (split v)"
    by (cases "split v") auto
next
  assume "process_file float_of file raw_lines = Inr t"
  from process_file_Inr [OF this] obtain v p tv tn en es where h:
    "extract_tally_values (remove_blank_lines raw_lines) = Inr tv"
    "\<forall>value \<in> set tv. split value \<noteq> []"
    "floats float_of (map (\<lambda>value. hd (split value)) tv) = Inr en"
    "floats float_of (map (\<lambda>value. last (split value)) tv) = Inr es"
    "t = \<lparr>Names = Text (splitext_root file) # map Text tn,
          Values = Text v # map Number en, Errors = Text p # map Number es\<rparr>"
    by blast
  have a: "map float_of (map (\<lambda>value. hd (split value)) tv) = map Some en"
    using h(3) by (rule floats_Inr_D)
  have b: "map float_of (map (\<lambda>value. last (split value)) tv) = map Some es"
    using h(4) by (rule floats_Inr_D)
  have "map (\<lambda>value. map_option Number (float_of (hd (split value)))) tv =
        map (map_option Number) (map float_of (map (\<lambda>value. hd (split value)) tv))"
    by (simp add: o_def)
  also have "\<dots> = map Some (map Number en)" by (simp only: a) (simp add: o_def)
  finally have c: "map (\<lambda>value. map_option Number (float_of (hd (split value)))) tv =
      map Some (tl (Values t))" by (simp add: h(5))
  have "map (\<lambda>value. map_option Number (float_of (last (split value)))) tv =
        map (map_option Number) (map float_of (map (\<lambda>value. last (split value)) tv))"
    by (simp add: o_def)
  also have "\<dots> = map Some (map Number es)" by (simp only: b) (simp add: o_def)
  finally have d: "map (\<lambda>value. map_option Number (float_of (last (split value)))) tv =
      map Some (tl (Errors t))" by (simp add: h(5))
  from h(1,2) c d show "\<exists>values. extract_tally_values (remove_blank_lines raw_lines) = Inr values \<and>
         (\<forall>value \<in> set values. split value \<noteq> []) \<and>
         map (\<lambda>value. map_option Number (float_of (hd (split value)))) values =
           map Some (tl (Values t)) \<and>
         map (\<lambda>value. map_option Number (float_of (last (split value)))) values =
           map Some (tl (Errors t))"
    by blast
next
  assume a: "remove_blank_lines raw_lines \<noteq> [] \<and>
    extract_tally_values (remove_blank_lines raw_lines) = Inr values \<and>
    extract_tally_names (remove_blank_lines raw_lines) = Inr names \<and>
    length names = length values \<and>
    (\<forall>value \<in> set values.
       float_of (hd (split value)) \<noteq> None \<and> float_of (last (split value)) \<noteq> None)"
  then show "\<exists>t. process_file float_of file raw_lines = Inr t \<and>
         tl (Values t) = map (\<lambda>value. Number (the (float_of (hd (split value))))) values \<and>
         tl (Errors t) = map (\<lambda>value. Number (the (float_of (last (split value))))) values"
    using process_file_succeeds [of "raw_lines" "values" "names" "float_of" "file"] by blast
qed

theorem value_block_tokens_witness:
  "split ''1.0 2.0  0.05'' \<noteq> [] \<and> split ''7.5'' \<noteq> [] \<and>
   extract_energies [''1.0 2.0  0.05'', ''7.5''] = Inr [''1.0'', ''7.5''] \<and>
   extract_errors [''1.0 2.0  0.05'', ''7.5''] = Inr [''0.05'', ''7.5''] \<and>
   length (split ''7.5'') = 1 \<and> hd (split ''7.5'') = last (split ''7.5'') \<and>
   process_file (\<lambda>tok. if tok = ''abc'' then None else Some tok) ''a.mctal''
     [''mcnp 6 x 12345678 9'', ''tally 4'', ''f'', ''flux'', ''vals'', '' 1.0 2.0  0.05 '',
      ''tally 14'', ''f'', ''dose'', ''vals'', ''7.5''] =
     Inr \<lparr>Names = [Text ''a'', Text ''flux'', Text ''dose''],
          Values = [Text ''MCNP6'', Number ''1.0'', Number ''7.5''],
          Errors = [Text ''NPS: 12345678'', Number ''0.05'', Number ''7.5'']\<rparr> \<and>
   extract_tally_values (remove_blank_lines
     [''mcnp 6 x 12345678 9'', ''tally 4'', ''f'', ''flux'', ''vals'', '' 1.0 2.0  0.05 '',
      ''tally 14'', ''f'', ''dose'', ''vals'', ''7.5'']) = Inr [''1.0 2.0  0.05'', ''7.5''] \<and>
   map (\<lambda>value. map_option Number
          ((\<lambda>tok. if tok = ''abc'' then None else Some tok) (hd (split value))))
     [''1.0 2.0  0.05'', ''7.5''] =
     map Some (tl (Values \<lparr>Names = [Text ''a'', Text ''flux'', Text ''dose''],
          Values = [Text ''MCNP6'', Number ''1.0'', Number ''7.5''],
          Errors = [Text ''NPS: 12345678'', Number ''0.05'', Number ''7.5'']\<rparr>)) \<and>
   map (\<lambda>value. map_option Number
          ((\<lambda>tok. if tok = ''abc'' then None else Some tok) (last (split value))))
     [''1.0 2.0  0.05'', ''7.5''] =
     map Some (tl (Errors \<lparr>Names = [Text ''a'', Text ''flux'', Text ''dose''],
          Values = [Text ''MCNP6'', Number ''1.0'', Number ''7.5''],
          Errors = [Text ''NPS: 12345678'', Number ''0.05'', Number ''7.5'']\<rparr>))"
proof -
  let ?fo = "\<lambda>tok. if tok = ''abc'' then None else Some tok"
  let ?vs = "[''1.0 2.0  0.05'', ''7.5'']"
  let ?raw = "[''mcnp 6 x 12345678 9'', ''tally 4'', ''f'', ''flux'', ''vals'', '' 1.0 2.0  0.05 '',
      ''tally 14'', ''f'', ''dose'', ''vals'', ''7.5'']"
  let ?t = "\<lparr>Names = [Text ''a'', Text ''flux'', Text ''dose''],
          Values = [Text ''MCNP6'', Number ''1.0'', Number ''7.5''],
          Errors = [Text ''NPS: 12345678'', Number ''0.05'', Number ''7.5'']\<rparr>"
  note th = value_block_tokens [of ?vs ?fo "''a.mctal''" ?raw ?t ?vs "[''flux'', ''dose'']"]
  have s1: "split ''1.0 2.0  0.05'' = [''1.0'', ''2.0'', ''0.05'']" by code_simp
  have s2: "split ''7.5'' = [''7.5'']" by code_simp
  have ne: "\<forall>value \<in> set ?vs. split value \<noteq> []" by (simp add: s1 s2)
  have nr: "remove_blank_lines ?raw \<noteq> []" by code_simp
  have tv: "extract_tally_values (remove_blank_lines ?raw) = Inr ?vs" by code_simp
  have tn: "extract_tally_names (remove_blank_lines ?raw) = Inr [''flux'', ''dose'']" by code_simp
  have fl: "\<forall>value \<in> set ?vs.
       ?fo (hd (split value)) \<noteq> None \<and> ?fo (last (split value)) \<noteq> None"
    by (simp add: s1 s2)
  from th have "extract_energies ?vs = Inr (map (\<lambda>value. hd (split value)) ?vs) \<and>
      extract_errors ?vs = Inr (map (\<lambda>value. last (split value)) ?vs)"
    using ne by blast
  then have tok: "extract_energies ?vs = Inr [''1.0'', ''7.5''] \<and>
      extract_errors ?vs = Inr [''0.05'', ''7.5'']"
    by (simp add: s1 s2)
  from th have "\<exists>t. process_file ?fo ''a.mctal'' ?raw = Inr t \<and>
         tl (Values t) = map (\<lambda>value. Number (the (?fo (hd (split value))))) ?vs \<and>
         tl (Errors t) = map (\<lambda>value. Number (the (?fo (last (split value))))) ?vs"
    using nr tv tn fl by simp
  then obtain t where t: "process_file ?fo ''a.mctal'' ?raw = Inr t" by blast
  have e: "process_file ?fo ''a.mctal'' ?raw = Inr ?t" by code_simp
  from th e have "\<exists>values. extract_tally_values (remove_blank_lines ?raw) = Inr values \<and>
         (\<forall>value \<in> set values. split value \<noteq> []) \<and>
         map (\<lambda>value. map_option Number (?fo (hd (split value)))) values =
           map Some (tl (Values ?t)) \<and>
         map (\<lambda>value. map_option Number (?fo (last (split value)))) values =
           map Some (tl (Errors ?t))"
    by blast
  then have cells: "map (\<lambda>value. map_option Number (?fo (hd (split value)))) ?vs =
           map Some (tl (Values ?t)) \<and>
         map (\<lambda>value. map_option Number (?fo (last (split value)))) ?vs =
           map Some (tl (Errors ?t))"
    using tv by auto
  show ?thesis
    using tok e tv cells by (simp add: s1 s2)
qed

end
